theory Spec2Isabelle
  imports Main "HOL-Library.FSet" "HOL-Library.Word"
begin

section \<open>Flashcard scheduling: the functions of src/algorithm.ts\<close>

text \<open>
  The TypeScript module works on JavaScript objects: a \<^verbatim>\<open>Map<number, Set<Flashcard>>\<close>
  holds \<^emph>\<open>references\<close> to \<^verbatim>\<open>Set\<close> objects, and \<^verbatim>\<open>Set.add\<close> / \<^verbatim>\<open>Set.delete\<close>
  mutate the object they are called on, whoever else holds a reference to it. The model
  therefore keeps an explicit store of Set objects; Maps and Arrays hold addresses into it.
\<close>

subsection \<open>Data model\<close>

text \<open>
  A \<^verbatim>\<open>Set<Flashcard>\<close> object: a finite set of card identities (membership of a JavaScript
  Set of objects is by object identity; the type \<open>'c\<close> is that identity). \<^verbatim>\<open>size\<close> is
  \<open>fcard\<close>, \<^verbatim>\<open>has\<close> is \<open>|\<in>|\<close>, \<^verbatim>\<open>add\<close> is \<open>finsert\<close>, \<^verbatim>\<open>delete\<close> removes the element.
\<close>

type_synonym ref = nat

text \<open>The store: the Set object at address \<open>r\<close> is \<open>h ! r\<close>; \<^verbatim>\<open>new Set()\<close> appends a cell.\<close>

type_synonym 'c heap = "'c fset list"

text \<open>
  A \<^verbatim>\<open>BucketMap\<close> (\<^verbatim>\<open>Map<number, Set<Flashcard>>\<close>): its entries in insertion order, each a
  bucket number with the address of its Set. Bucket numbers are non-negative integers
  (specification, sections 3 and 7); as JavaScript numbers they are exact up to
  \<^verbatim>\<open>Number.MAX_SAFE_INTEGER\<close>, and \<open>validMap\<close> below keeps the keys in that range.
\<close>

type_synonym bucketMap = "(nat \<times> ref) list"

text \<open>\<^verbatim>\<open>enum AnswerDifficulty\<close>, imported from flashcards.ts.\<close>

datatype AnswerDifficulty = Wrong | Hard | Easy

text \<open>What the code can throw: the two built-in errors, and whatever a Proxy trap throws.\<close>

datatype error = TypeError | RangeError | TrapError

text \<open>\<^verbatim>\<open>Map.prototype.has\<close>, \<^verbatim>\<open>get\<close> (\<open>None\<close> is \<^verbatim>\<open>undefined\<close>) and \<^verbatim>\<open>set\<close>: an existing key keeps
  its place in the iteration order, a new key goes to the end.\<close>

definition mapHas :: "bucketMap \<Rightarrow> nat \<Rightarrow> bool" where
  "mapHas m k = (k \<in> set (map fst m))"

definition mapGet :: "bucketMap \<Rightarrow> nat \<Rightarrow> ref option" where
  "mapGet m k = map_of m k"

fun mapSet :: "bucketMap \<Rightarrow> nat \<Rightarrow> ref \<Rightarrow> bucketMap" where
  "mapSet [] k v = [(k, v)]"
| "mapSet ((k', v') # es) k v = (if k' = k then (k, v) # es else (k', v') # mapSet es k v)"

subsection \<open>toBucketSets\<close>

text \<open>\<^verbatim>\<open>Math.max(...buckets.keys(), -1)\<close>\<close>

definition maxKey :: "bucketMap \<Rightarrow> int" where
  "maxKey buckets = fold max (map (\<lambda>e. int (fst e)) buckets) (- 1)"

text \<open>The largest length an Array can have, \<open>2\<^sup>3\<^sup>2 - 1\<close>.\<close>

definition maxArrayLength :: int where
  "maxArrayLength = 4294967295"

text \<open>
  \<^verbatim>\<open>Array.from({ length: maxBucket + 1 }, () => new Set<Flashcard>())\<close> creates an Array of
  that length, which throws a RangeError when the length is more than \<open>2\<^sup>3\<^sup>2 - 1\<close>, and
  otherwise allocates \<open>maxBucket + 1\<close> fresh empty Sets; the loop then stores the Map's own
  Set objects at their bucket numbers (all within the Array, since no key is above
  \<open>maxBucket\<close>). The result is the new store and the array of addresses.
\<close>

definition toBucketSets :: "'c heap \<Rightarrow> bucketMap \<Rightarrow> error + ('c heap \<times> ref list)" where
  "toBucketSets h buckets =
     (let maxBucket = maxKey buckets
      in if maxBucket + 1 > maxArrayLength then Inl RangeError
         else
           let n = nat (maxBucket + 1);
               bucketArray = [length h ..< length h + n];
               h' = h @ replicate n {||}
           in Inr (h', fold (\<lambda>(bucketNumber, flashcardSet) arr. arr[bucketNumber := flashcardSet])
                         buckets bucketArray))"

subsection \<open>practice\<close>

text \<open>
  The body that fills \<^verbatim>\<open>practiceCards\<close> is commented out in the source: the function
  returns the Set it created, untouched. \<open>buckets\<close> are the contents of the array's Sets.
\<close>

definition practice :: "'c fset list \<Rightarrow> nat \<Rightarrow> 'c fset" where
  "practice buckets day =
     (let practiceCards = {||};
          practiceBuckets = [0, 1, 2, 3, 4 :: nat]
      in practiceCards)"

text \<open>
  The policy in the words of the specification (section 4.3): bucket 0 is due every day,
  bucket \<open>i\<close> in 1..4 is due when \<open>day mod r\<^sub>i = 0\<close> with \<open>r = [4, 10, 30, 100]\<close>, buckets
  beyond 4 are never due; the result is the union of the due buckets.
\<close>

definition due :: "nat \<Rightarrow> nat \<Rightarrow> bool" where
  "due i day = (i = 0 \<or> (1 \<le> i \<and> i \<le> 4 \<and> day mod ([4, 10, 30, 100] ! (i - 1)) = 0))"

definition practice_spec :: "'c fset list \<Rightarrow> nat \<Rightarrow> 'c fset" where
  "practice_spec buckets day =
     fold (|\<union>|) (map (\<lambda>i. buckets ! i) (filter (\<lambda>i. due i day) [0 ..< length buckets])) {||}"

subsection \<open>update\<close>

text \<open>
  The search loop: the first entry whose Set has the card gives \<open>currentBucket\<close>, the card
  is deleted from that Set object, and the loop breaks; \<open>- 1\<close> when no Set has the card.
\<close>

fun findCurrent :: "'c heap \<Rightarrow> bucketMap \<Rightarrow> 'c \<Rightarrow> int \<times> 'c heap" where
  "findCurrent h [] crd = (- 1, h)"
| "findCurrent h ((bucketNum, cardSet) # es) crd =
     (if crd |\<in>| h ! cardSet
      then (int bucketNum, h[cardSet := h ! cardSet |-| {|crd|}])
      else findCurrent h es crd)"

text \<open>The \<^verbatim>\<open>switch\<close> on the difficulty.\<close>

fun newBucketOf :: "AnswerDifficulty \<Rightarrow> int \<Rightarrow> int" where
  "newBucketOf Wrong currentBucket = 0"
| "newBucketOf Hard currentBucket = max 0 (currentBucket - 1)"
| "newBucketOf Easy currentBucket = min 4 (currentBucket + 1)"

text \<open>
  \<^verbatim>\<open>new Map(buckets)\<close> copies the entries, not the Sets: \<open>updatedBuckets\<close> has the
  addresses of the caller's Sets. The caller's Map object itself is never written to, so it
  stays the value \<open>buckets\<close>. \<^verbatim>\<open>updatedBuckets.get(newBucket)!.add(card)\<close> would throw a
  TypeError on \<^verbatim>\<open>undefined\<close>.
\<close>

definition update ::
  "'c heap \<Rightarrow> bucketMap \<Rightarrow> 'c \<Rightarrow> AnswerDifficulty \<Rightarrow> error + ('c heap \<times> bucketMap)" where
  "update h buckets crd difficulty =
     (let updatedBuckets = buckets;
          (found, h1) = findCurrent h updatedBuckets crd;
          currentBucket = (if found = - 1 then 0 else found);
          newBucket = nat (newBucketOf difficulty currentBucket);
          (h2, updatedBuckets2) =
             (if \<not> mapHas updatedBuckets newBucket
              then (h1 @ [{||}], mapSet updatedBuckets newBucket (length h1))
              else (h1, updatedBuckets))
      in case mapGet updatedBuckets2 newBucket of
           None \<Rightarrow> Inl TypeError
         | Some s \<Rightarrow> Inr (h2[s := finsert crd (h2 ! s)], updatedBuckets2))"

text \<open>A sequence of calls, each on the Map the previous one returned.\<close>

fun updates ::
  "'c heap \<Rightarrow> bucketMap \<Rightarrow> ('c \<times> AnswerDifficulty) list \<Rightarrow> error + ('c heap \<times> bucketMap)" where
  "updates h m [] = Inr (h, m)"
| "updates h m ((crd, difficulty) # rest) =
     (case update h m crd difficulty of
        Inl e \<Rightarrow> Inl e
      | Inr (h', m') \<Rightarrow> updates h' m' rest)"

subsection \<open>getHint\<close>

text \<open>A JavaScript string is a sequence of UTF-16 code units.\<close>

type_synonym jsString = "16 word list"

definition lit :: "string \<Rightarrow> jsString" where
  "lit s = map (\<lambda>c. of_nat (of_char c)) s"

text \<open>
  Modelled from the spec: the \<^verbatim>\<open>Flashcard\<close> class of flashcards.ts, which is not among the
  sources: front text, back text, optional hint text (\<open>None\<close> is an absent hint), and the
  ordered tags (the field back is named backText here).
\<close>

record Flashcard =
  front :: jsString
  backText :: jsString
  hint :: "jsString option"
  tags :: "jsString list"

text \<open>The code units \<^verbatim>\<open>String.prototype.trim\<close> strips: WhiteSpace and LineTerminator.\<close>

definition isWhiteSpace :: "16 word \<Rightarrow> bool" where
  "isWhiteSpace u = (u \<in> set [0x0009, 0x000A, 0x000B, 0x000C, 0x000D, 0x0020, 0x00A0, 0x1680,
      0x2000, 0x2001, 0x2002, 0x2003, 0x2004, 0x2005, 0x2006, 0x2007, 0x2008, 0x2009, 0x200A,
      0x2028, 0x2029, 0x202F, 0x205F, 0x3000, 0xFEFF])"

definition trim :: "jsString \<Rightarrow> jsString" where
  "trim s = rev (dropWhile isWhiteSpace (rev (dropWhile isWhiteSpace s)))"

text \<open>\<^verbatim>\<open>Array.prototype.join\<close> on an array of strings.\<close>

fun join :: "jsString \<Rightarrow> jsString list \<Rightarrow> jsString" where
  "join sep [] = []"
| "join sep [x] = x"
| "join sep (x # y # ys) = x @ sep @ join sep (y # ys)"

text \<open>\<^verbatim>\<open>card.hint && ...\<close>: an absent hint and the empty string are both falsy.\<close>

definition getHint :: "Flashcard \<Rightarrow> jsString" where
  "getHint crd =
     (if (case hint crd of None \<Rightarrow> False | Some t \<Rightarrow> t \<noteq> [] \<and> trim t \<noteq> [])
      then the (hint crd)
      else if length (tags crd) > 0
      then lit ''Try to remember a card related to: '' @ join (lit '', '') (tags crd)
      else lit ''First few characters: '' @ take 5 (front crd) @ lit ''...'')"

subsection \<open>computeProgress\<close>

text \<open>
  The argument \<open>buckets\<close> has type \<^verbatim>\<open>any\<close>: the model has the JavaScript values by kind.
  A number is \<open>NaN\<close>, an infinity, or a finite \<open>Dyadic m e\<close>, the number m times 2 to the e.
\<close>

datatype jsNumber = NaN | PosInfinity | NegInfinity | Dyadic int int

text \<open>
  The primitives; then the objects:
  \<^item> \<open>JObject\<close>: an ordinary object that is not an Array and whose prototype chain does
    not reach \<^verbatim>\<open>Map.prototype\<close> (a plain object, a function, a Date, a class instance);
  \<^item> \<open>JSet\<close>: a Set object;
  \<^item> \<open>JRevokedProxy\<close>: a Proxy after \<^verbatim>\<open>revoke()\<close>; every operation on it, also the
    test \<^verbatim>\<open>Array.isArray\<close>, throws a TypeError;
  \<^item> \<open>JProxy t\<close>: a live Proxy around an object that is not an Array. \<^verbatim>\<open>instanceof\<close> asks
    it for its prototype, which runs the handler's \<^verbatim>\<open>getPrototypeOf\<close> trap: the trap throws
    (\<open>Some e\<close>), or the chain it gives does not reach \<^verbatim>\<open>Map.prototype\<close> (\<open>None\<close>);
  \<^item> \<open>JArray\<close>: an Array whose elements are Sets, as \<^verbatim>\<open>toBucketSets\<close> returns;
  \<^item> \<open>JMap\<close>: a Map from bucket numbers to Sets, a \<^verbatim>\<open>BucketMap\<close>.
  Objects that pass one of the two tests without being such an Array or Map (an Array of
  other things, a Proxy around an Array, an object made to inherit from \<^verbatim>\<open>Map.prototype\<close>)
  are not in the model: inside the loops they run code of the caller's.
\<close>

datatype jsValue =
    JUndefined
  | JNull
  | JBoolean bool
  | JNumber jsNumber
  | JBigInt int
  | JString jsString
  | JSymbol jsString
  | JObject
  | JSet ref
  | JRevokedProxy
  | JProxy "error option"
  | JArray "ref list"
  | JMap bucketMap









subsection \<open>Notions the properties are stated with\<close>

text \<open>\<^verbatim>\<open>Number.MAX_SAFE_INTEGER\<close>, \<open>2\<^sup>5\<^sup>3 - 1\<close>: up to it, adding and subtracting 1 is exact.\<close>

definition maxSafeInteger :: nat where
  "maxSafeInteger = 9007199254740991"

text \<open>
  What a JavaScript Map guarantees by construction: its keys are pairwise different, and
  the Sets it refers to exist in the store; and the keys are bucket numbers, integers that
  a JavaScript number holds exactly.
\<close>

definition validMap :: "'c heap \<Rightarrow> bucketMap \<Rightarrow> bool" where
  "validMap h m =
     (distinct (map fst m) \<and> list_all (\<lambda>e. fst e \<le> maxSafeInteger \<and> snd e < length h) m)"

text \<open>Every key is below \<open>2\<^sup>3\<^sup>2 - 1\<close>, so that the array form has room for it.\<close>

definition withinArrayLength :: "bucketMap \<Rightarrow> bool" where
  "withinArrayLength m = list_all (\<lambda>e. int (fst e) < maxArrayLength) m"


text \<open>Every bucket has a Set object of its own: no two keys refer to the same Set.\<close>

definition unshared :: "bucketMap \<Rightarrow> bool" where
  "unshared m = distinct (map snd m)"

text \<open>The bucket numbers whose Set has the card, in the Map's order.\<close>

definition bucketsOf :: "'c heap \<Rightarrow> bucketMap \<Rightarrow> 'c \<Rightarrow> nat list" where
  "bucketsOf h m c = map fst (filter (\<lambda>e. c |\<in>| h ! snd e) m)"

text \<open>The exclusivity invariant: the Sets of the buckets are pairwise disjoint.\<close>

fun disjointSets :: "'c fset list \<Rightarrow> bool" where
  "disjointSets [] = True"
| "disjointSets (s # ss) = (list_all (\<lambda>t. s |\<inter>| t = {||}) ss \<and> disjointSets ss)"

definition exclusive :: "'c heap \<Rightarrow> bucketMap \<Rightarrow> bool" where
  "exclusive h m = disjointSets (map (\<lambda>e. h ! snd e) m)"

text \<open>The card's bucket in a mapping, 0 when no bucket has it.\<close>

definition currentOf :: "'c heap \<Rightarrow> bucketMap \<Rightarrow> 'c \<Rightarrow> nat" where
  "currentOf h m c = (case bucketsOf h m c of [] \<Rightarrow> 0 | k # ks \<Rightarrow> k)"

text \<open>The total number of cards, summed over the buckets.\<close>

definition totalOf :: "'c heap \<Rightarrow> bucketMap \<Rightarrow> nat" where
  "totalOf h m = sum_list (map (\<lambda>e. fcard (h ! snd e)) m)"

text \<open>The (index, card) memberships of a mapping and of an array.\<close>

definition membersMap :: "'c heap \<Rightarrow> bucketMap \<Rightarrow> (nat \<times> 'c) set" where
  "membersMap h m = (\<Union>e \<in> set m. Pair (fst e) ` fset (h ! snd e))"

definition membersArray :: "'c heap \<Rightarrow> ref list \<Rightarrow> (nat \<times> 'c) set" where
  "membersArray h a = (\<Union>i \<in> set [0 ..< length a]. Pair i ` fset (h ! (a ! i)))"

text \<open>
  The way back from the array form that the specification describes (section 8): the
  non-empty entries of the array, each with its index. It is not a function of the source.
\<close>

definition fromBucketSets :: "'c heap \<Rightarrow> ref list \<Rightarrow> bucketMap" where
  "fromBucketSets h a = filter (\<lambda>e. h ! snd e \<noteq> {||}) (zip [0 ..< length a] a)"

section \<open>Properties\<close>

subsection \<open>practice\<close>

text \<open>
  C1. \<^verbatim>\<open>practice(buckets, day)\<close> is to return the union of the buckets due on that day:
  bucket 0 always, bucket \<open>i\<close> in 1..4 when \<open>day mod r\<^sub>i = 0\<close>. The source returns the empty
  Set whatever it is given. On the array and the day of the repository's own test
  (\<^verbatim>\<open>[{card1}, {}, {}, {}]\<close>, day 10) the policy selects \<^verbatim>\<open>card1\<close> and the code selects
  nothing.
\<close>

theorem practice_selects_nothing:
  "practice [{|1::nat|}, {||}, {||}, {||}] 10 = {||} \<and>
   practice_spec [{|1::nat|}, {||}, {||}, {||}] 10 = {|1|}"
  by (simp add: practice_def practice_spec_def due_def)

subsection \<open>update and the caller's Sets\<close>

text \<open>
  C2. \<^verbatim>\<open>update\<close> is to leave its input mapping unmodified. It copies the Map but not the
  Sets, and deletes the card from the caller's Set: with card 1 in bucket 2 and the answer
  Wrong, the input Map \<^verbatim>\<open>{2 -> {1}}\<close> has card 1 in bucket 2 before the call and in no
  bucket after it.
\<close>

theorem update_mutates_input_sets:
  "update [{|1::nat|}] [(2, 0)] 1 Wrong = Inr ([{||}, {|1|}], [(2, 0), (0, 1)]) \<and>
   bucketsOf [{|1::nat|}] [(2, 0)] 1 = [2] \<and>
   bucketsOf [{||}, {|1::nat|}] [(2, 0)] 1 = []"
  by (simp add: update_def mapHas_def mapGet_def bucketsOf_def)

subsection \<open>toBucketSets: the length of the array\<close>

lemma fold_list_update_length:
  "length (fold (\<lambda>(k, v) arr. arr[k := v]) es a) = length a"
  by (induction es arbitrary: a) auto

lemma maxKey_Max:
  assumes "m \<noteq> []"
  shows "maxKey m = int (Max (set (map fst m)))"
proof -
  let ?S = "set (map fst m)"
  have fin: "finite ?S" and ne: "?S \<noteq> {}" using assms by auto
  have "maxKey m = Max (set ((- 1) # map (\<lambda>e. int (fst e)) m))"
    unfolding maxKey_def by (simp only: Max.set_eq_fold)
  also have "\<dots> = Max (insert (- 1) (int ` ?S))"
    by (simp add: image_image)
  also have "\<dots> = max (- 1) (Max (int ` ?S))"
    using fin ne by (subst Max_insert) auto
  also have "Max (int ` ?S) = int (Max ?S)"
    using fin ne by (simp add: mono_Max_commute [symmetric] mono_def)
  finally show ?thesis by simp
qed

lemma withinArrayLength_iff: "withinArrayLength m \<longleftrightarrow> maxKey m + 1 \<le> maxArrayLength"
proof (cases "m = []")
  case True
  then show ?thesis by (simp add: withinArrayLength_def maxKey_def maxArrayLength_def)
next
  case False
  let ?S = "set (map fst m)"
  have fin: "finite ?S" and ne: "?S \<noteq> {}" using False by auto
  have "withinArrayLength m \<longleftrightarrow> (\<forall>k \<in> ?S. int k < maxArrayLength)"
    by (auto simp: withinArrayLength_def list_all_iff)
  also have "\<dots> \<longleftrightarrow> (\<forall>k \<in> ?S. k < nat maxArrayLength)"
    by (auto simp: maxArrayLength_def)
  also have "\<dots> \<longleftrightarrow> Max ?S < nat maxArrayLength"
    using fin ne by (simp add: Max_less_iff)
  also have "\<dots> \<longleftrightarrow> int (Max ?S) + 1 \<le> maxArrayLength"
    unfolding maxArrayLength_def by arith
  also have "\<dots> \<longleftrightarrow> maxKey m + 1 \<le> maxArrayLength"
    by (simp only: maxKey_Max [OF False])
  finally show ?thesis .
qed

lemma toBucketSets_Inr:
  assumes "withinArrayLength m"
  shows "toBucketSets h m =
           Inr (h @ replicate (nat (maxKey m + 1)) {||},
                fold (\<lambda>(k, v) arr. arr[k := v]) m
                  [length h ..< length h + nat (maxKey m + 1)])"
proof -
  have "\<not> maxKey m + 1 > maxArrayLength" using assms by (simp add: withinArrayLength_iff)
  then show ?thesis by (simp add: toBucketSets_def Let_def)
qed

lemma toBucketSets_Inl:
  assumes "\<not> withinArrayLength m"
  shows "toBucketSets h m = Inl RangeError"
proof -
  have "maxKey m + 1 > maxArrayLength" using assms by (simp add: withinArrayLength_iff)
  then show ?thesis by (simp add: toBucketSets_def Let_def)
qed

text \<open>
  C7, as the code has it: when every key of \<open>m\<close> is below \<open>2\<^sup>3\<^sup>2 - 1\<close>, the array returned
  by \<^verbatim>\<open>toBucketSets(m)\<close> has one entry for every index up to the largest key of \<open>m\<close>,
  whether or not the Set under that key has a card, and it is the empty sequence when \<open>m\<close>
  has no key; when a key is \<open>2\<^sup>3\<^sup>2 - 1\<close> or more, the call throws a RangeError.
\<close>

theorem toBucketSets_length:
  "(withinArrayLength m \<longrightarrow>
      (\<exists>h' a. toBucketSets h m = Inr (h', a) \<and>
         length a = (if m = [] then 0 else Suc (Max (set (map fst m)))))) \<and>
   (\<not> withinArrayLength m \<longrightarrow> toBucketSets h m = Inl RangeError)"
proof (intro conjI impI)
  assume w: "withinArrayLength m"
  have "length (fold (\<lambda>(k, v) arr. arr[k := v]) m [length h ..< length h + nat (maxKey m + 1)])
          = (if m = [] then 0 else Suc (Max (set (map fst m))))"
  proof (cases "m = []")
    case True
    then show ?thesis by (simp add: maxKey_def)
  next
    case False
    then show ?thesis by (simp add: fold_list_update_length maxKey_Max)
  qed
  then show "\<exists>h' a. toBucketSets h m = Inr (h', a) \<and>
         length a = (if m = [] then 0 else Suc (Max (set (map fst m))))"
    by (simp add: toBucketSets_Inr [OF w])
next
  assume "\<not> withinArrayLength m"
  then show "toBucketSets h m = Inl RangeError" by (rule toBucketSets_Inl)
qed

text \<open>
  The Map \<^verbatim>\<open>{2 -> {}, 0 -> {1}}\<close> gives an array of length 3, and a Map with the key
  \<open>2\<^sup>3\<^sup>2 - 1\<close> gives the RangeError.
\<close>

theorem toBucketSets_length_witness:
  "withinArrayLength [(2, 0), (0, 1)] \<and>
   toBucketSets [{||}, {|1::nat|}] [(2, 0), (0, 1)]
     = Inr ([{||}, {|1|}, {||}, {||}, {||}], [1, 3, 0]) \<and>
   length [1, 3, 0 :: nat] = Suc (Max (set (map fst [(2, 0), (0, 1 :: nat)]))) \<and>
   \<not> withinArrayLength [(4294967295, 0)] \<and>
   toBucketSets [{|1::nat|}] [(4294967295, 0)] = Inl RangeError"
proof -
  have w: "withinArrayLength [(2, 0), (0, 1)]"
    by (simp add: withinArrayLength_def maxArrayLength_def)
  have n: "\<not> withinArrayLength [(4294967295, 0)]"
    by (simp add: withinArrayLength_def maxArrayLength_def)
  have t: "toBucketSets [{||}, {|1::nat|}] [(2, 0), (0, 1)]
             = Inr ([{||}, {|1|}, {||}, {||}, {||}], [1, 3, 0])"
    by (simp add: toBucketSets_def maxKey_def maxArrayLength_def upt_rec eval_nat_numeral)
  show ?thesis
    using w n t
      toBucketSets_length [of "[(2, 0), (0, 1)]" "[{||}, {|1::nat|}]"]
      toBucketSets_length [of "[(4294967295, 0)]" "[{|1::nat|}]"]
    by simp
qed

text \<open>
  C7 as stated (the length is at most 1 plus the largest index of a bucket that holds a
  card) fails on a Map that \<^verbatim>\<open>update\<close> returns: in \<^verbatim>\<open>{2 -> {}, 0 -> {1}}\<close> the only card
  is in bucket 0, and the array has length 3, with empty Sets at indices 1 and 2.
\<close>

theorem toBucketSets_trailing_empty:
  "bucketsOf [{||}, {|1::nat|}] [(2, 0), (0, 1)] 1 = [0] \<and>
   [{||}, {|1::nat|}] ! 0 = {||} \<and>
   toBucketSets [{||}, {|1::nat|}] [(2, 0), (0, 1)]
     = Inr ([{||}, {|1|}, {||}, {||}, {||}], [1, 3, 0]) \<and>
   length [1, 3, 0 :: nat] = 3"
  by (simp add: toBucketSets_def maxKey_def maxArrayLength_def bucketsOf_def upt_rec
      eval_nat_numeral)

subsection \<open>getHint\<close>

lemma dropWhile_all_iff:
  "(\<forall>u \<in> set (dropWhile P s). P u) \<longleftrightarrow> (\<forall>u \<in> set s. P u)"
proof
  assume a: "\<forall>u \<in> set (dropWhile P s). P u"
  have "dropWhile P s = []"
  proof (rule ccontr)
    assume ne: "dropWhile P s \<noteq> []"
    then have "\<not> P (hd (dropWhile P s))" by (rule hd_dropWhile)
    moreover have "hd (dropWhile P s) \<in> set (dropWhile P s)" using ne by simp
    ultimately show False using a by blast
  qed
  then show "\<forall>u \<in> set s. P u" by (simp only: dropWhile_eq_Nil_conv)
next
  assume "\<forall>u \<in> set s. P u"
  then show "\<forall>u \<in> set (dropWhile P s). P u" by (blast dest: set_dropWhileD)
qed

lemma trim_Nil_iff: "trim s = [] \<longleftrightarrow> (\<forall>u \<in> set s. isWhiteSpace u)"
  by (simp add: trim_def dropWhile_eq_Nil_conv dropWhile_all_iff)

text \<open>
  C8, as the code has it: \<^verbatim>\<open>getHint(card)\<close> returns the hint text verbatim when it has a
  character that is not white space; otherwise, when the card has a tag, the tags in their
  order joined by \<^verbatim>\<open>", "\<close> after a fixed prefix; otherwise the first five characters of the
  front text between a fixed prefix and \<^verbatim>\<open>"..."\<close>.
\<close>

theorem getHint_priority:
  "getHint c =
     (let fallback =
        (if tags c \<noteq> []
         then lit ''Try to remember a card related to: '' @ join (lit '', '') (tags c)
         else lit ''First few characters: '' @ take 5 (front c) @ lit ''...'')
      in case hint c of
           None \<Rightarrow> fallback
         | Some t \<Rightarrow> if (\<exists>u \<in> set t. \<not> isWhiteSpace u) then t else fallback)"
proof (cases "hint c")
  case None
  then show ?thesis by (simp add: getHint_def)
next
  case (Some t)
  have "t \<noteq> [] \<and> trim t \<noteq> [] \<longleftrightarrow> (\<exists>u \<in> set t. \<not> isWhiteSpace u)"
    by (auto simp: trim_Nil_iff)
  with Some show ?thesis by (simp add: getHint_def Let_def)
qed

text \<open>The three cards of the repository's tests for \<^verbatim>\<open>getHint\<close>, one for each branch.\<close>

theorem getHint_priority_witness:
  "getHint \<lparr>front = lit ''Front'', backText = lit ''Back'', hint = Some (lit ''H''),
             tags = [lit ''x'']\<rparr> = lit ''H'' \<and>
   getHint \<lparr>front = lit ''Front'', backText = lit ''Back'', hint = Some [],
             tags = [lit ''history'', lit ''science'']\<rparr>
     = lit ''Try to remember a card related to: history, science'' \<and>
   getHint \<lparr>front = lit ''Important Concept'', backText = lit ''Back'', hint = None,
             tags = []\<rparr> = lit ''First few characters: Impor...''"
  using getHint_priority [of "\<lparr>front = lit ''Front'', backText = lit ''Back'',
          hint = Some (lit ''H''), tags = [lit ''x'']\<rparr>"]
        getHint_priority [of "\<lparr>front = lit ''Front'', backText = lit ''Back'', hint = Some [],
          tags = [lit ''history'', lit ''science'']\<rparr>"]
        getHint_priority [of "\<lparr>front = lit ''Important Concept'', backText = lit ''Back'',
          hint = None, tags = []\<rparr>"]
  by (simp add: lit_def isWhiteSpace_def)

text \<open>
  C8 as stated (a non-empty hint text is returned verbatim) fails for a hint of white
  space only: the hint \<^verbatim>\<open>" "\<close> is not empty, and the result is the front-text hint.
\<close>

theorem getHint_blank_hint_skipped:
  "hint \<lparr>front = lit ''abc'', backText = lit ''def'', hint = Some (lit '' ''), tags = []\<rparr>
     = Some (lit '' '') \<and> lit '' '' \<noteq> [] \<and>
   getHint \<lparr>front = lit ''abc'', backText = lit ''def'', hint = Some (lit '' ''), tags = []\<rparr>
     = lit ''First few characters: abc...''"
  by (simp add: getHint_def trim_def lit_def isWhiteSpace_def)

subsection \<open>computeProgress on other values\<close>




subsection \<open>toBucketSets and the array form\<close>

lemma fold_assign_nth:
  "distinct (map fst es) \<Longrightarrow> \<forall>k \<in> set (map fst es). k < length a \<Longrightarrow> i < length a \<Longrightarrow>
   fold (\<lambda>(k, v) arr. arr[k := v]) es a ! i = (case map_of es i of None \<Rightarrow> a ! i | Some r \<Rightarrow> r)"
proof (induction es arbitrary: a)
  case Nil
  then show ?case by simp
next
  case (Cons e es)
  obtain k v where e: "e = (k, v)" by (cases e)
  from Cons.prems e have k: "k < length a" and notin: "k \<notin> fst ` set es" by auto
  have "fold (\<lambda>(k, v) arr. arr[k := v]) es (a[k := v]) ! i =
        (case map_of es i of None \<Rightarrow> a[k := v] ! i | Some r \<Rightarrow> r)"
    using Cons.prems by (intro Cons.IH) auto
  moreover have "map_of es k = None" using notin by (simp add: map_of_eq_None_iff)
  ultimately show ?case using e k by (auto simp: nth_list_update split: option.splits)
qed

lemma key_less_length:
  assumes "(k, r) \<in> set m"
  shows "k < nat (maxKey m + 1)"
proof -
  have ne: "m \<noteq> []" using assms by auto
  have "k \<in> set (map fst m)" using assms by force
  then have "k \<le> Max (set (map fst m))" by (intro Max_ge) auto
  then show ?thesis by (simp add: maxKey_Max [OF ne])
qed

lemma toBucketSets_InrD:
  assumes "toBucketSets h m = Inr (h', a)"
  shows "withinArrayLength m"
    and "h' = h @ replicate (nat (maxKey m + 1)) {||}"
    and "a = fold (\<lambda>(k, v) arr. arr[k := v]) m [length h ..< length h + nat (maxKey m + 1)]"
proof -
  show w: "withinArrayLength m"
  proof (rule ccontr)
    assume "\<not> withinArrayLength m"
    then have "toBucketSets h m = Inl RangeError" by (rule toBucketSets_Inl)
    with assms show False by simp
  qed
  show "h' = h @ replicate (nat (maxKey m + 1)) {||}"
    and "a = fold (\<lambda>(k, v) arr. arr[k := v]) m [length h ..< length h + nat (maxKey m + 1)]"
    using assms toBucketSets_Inr [OF w, of h] by simp_all
qed

lemma toBucketSets_nth:
  assumes v: "validMap h m" and t: "toBucketSets h m = Inr (h', a)" and i: "i < length a"
  shows "h' ! (a ! i) = (case map_of m i of None \<Rightarrow> {||} | Some r \<Rightarrow> h ! r)"
proof -
  define n where "n = nat (maxKey m + 1)"
  define a0 where "a0 = [length h ..< length h + n]"
  have h': "h' = h @ replicate n {||}"
    and a: "a = fold (\<lambda>(k, v) arr. arr[k := v]) m a0"
    using toBucketSets_InrD [OF t] by (simp_all add: n_def a0_def)
  have len: "length a = n" by (simp add: a fold_list_update_length a0_def)
  have keys: "\<forall>k \<in> set (map fst m). k < length a0"
    using key_less_length [of _ _ m] by (auto simp: a0_def n_def)
  have d: "distinct (map fst m)" using v by (simp add: validMap_def)
  have nth: "a ! i = (case map_of m i of None \<Rightarrow> a0 ! i | Some r \<Rightarrow> r)"
    unfolding a using d keys i len by (intro fold_assign_nth) (simp_all add: a0_def)
  show ?thesis
  proof (cases "map_of m i")
    case None
    with nth have "a ! i = length h + i" using i len by (simp add: a0_def)
    then show ?thesis using None i len by (simp add: h' nth_append)
  next
    case (Some r)
    then have "(i, r) \<in> set m" by (rule map_of_SomeD)
    then have "r < length h" using v by (auto simp: validMap_def list_all_iff)
    then show ?thesis using Some nth by (simp add: h' nth_append)
  qed
qed

lemma in_zip_upt: "(i, r) \<in> set (zip [0 ..< length a] a) \<longleftrightarrow> i < length a \<and> r = a ! i"
proof
  assume "(i, r) \<in> set (zip [0 ..< length a] a)"
  then obtain n where "[0 ..< length a] ! n = i" "a ! n = r" "n < length a"
    by (auto simp: in_set_zip)
  then show "i < length a \<and> r = a ! i" by simp
next
  assume "i < length a \<and> r = a ! i"
  then have "[0 ..< length a] ! i = i \<and> a ! i = r \<and> i < length a" by simp
  then show "(i, r) \<in> set (zip [0 ..< length a] a)"
    unfolding in_set_zip by force
qed

lemma membersArray_iff:
  "(i, c) \<in> membersArray h a \<longleftrightarrow> i < length a \<and> c |\<in>| h ! (a ! i)"
  by (auto simp: membersArray_def)

lemma membersMap_iff:
  "(i, c) \<in> membersMap h m \<longleftrightarrow> (\<exists>r. (i, r) \<in> set m \<and> c |\<in>| h ! r)"
  by (force simp: membersMap_def)

lemma membersMap_fromBucketSets: "membersMap h (fromBucketSets h a) = membersArray h a"
proof -
  have "(i, c) \<in> membersMap h (fromBucketSets h a) \<longleftrightarrow> (i, c) \<in> membersArray h a" for i c
    unfolding membersMap_iff membersArray_iff fromBucketSets_def
    by (auto simp: in_zip_upt)
  then show ?thesis by auto
qed

lemma round_trip_Inr:
  assumes "validMap h m" and "toBucketSets h m = Inr (h', a)"
  shows "membersMap h' (fromBucketSets h' a) = membersMap h m \<and>
         (\<forall>i c. (i < length a \<and> c |\<in>| h' ! (a ! i)) \<longleftrightarrow> (\<exists>r. (i, r) \<in> set m \<and> c |\<in>| h ! r))"
proof -
  have d: "distinct (map fst m)" using assms(1) by (simp add: validMap_def)
  have iff: "(i < length a \<and> c |\<in>| h' ! (a ! i)) \<longleftrightarrow> (\<exists>r. (i, r) \<in> set m \<and> c |\<in>| h ! r)"
    for i c
  proof (cases "i < length a")
    case True
    have "(\<exists>r. (i, r) \<in> set m \<and> c |\<in>| h ! r) \<longleftrightarrow> (\<exists>r. map_of m i = Some r \<and> c |\<in>| h ! r)"
      using d by simp
    then show ?thesis
      using True toBucketSets_nth [OF assms True]
      by (auto split: option.splits)
  next
    case False
    have "length a = nat (maxKey m + 1)"
      using toBucketSets_InrD(3) [OF assms(2)] by (simp add: fold_list_update_length)
    with False have "\<not> (\<exists>r. (i, r) \<in> set m)" using key_less_length [of i _ m] by auto
    with False show ?thesis by simp
  qed
  have "membersArray h' a = membersMap h m"
    by (auto simp: membersArray_iff membersMap_iff iff)
  with iff show ?thesis by (simp add: membersMap_fromBucketSets)
qed

text \<open>
  C6, as the code has it: for a mapping \<open>m\<close> whose keys are all below \<open>2\<^sup>3\<^sup>2 - 1\<close>,
  \<^verbatim>\<open>toBucketSets(m)\<close> returns an array, and taking the non-empty entries of that array,
  each with its index, gives back the (index, card) memberships of \<open>m\<close>: a card is in
  bucket \<open>i\<close> of \<open>m\<close> exactly when it is in the Set at index \<open>i\<close> of the array.
\<close>

theorem toBucketSets_round_trip:
  assumes "validMap h m" and "withinArrayLength m"
  shows "\<exists>h' a. toBucketSets h m = Inr (h', a) \<and>
           membersMap h' (fromBucketSets h' a) = membersMap h m \<and>
           (\<forall>i c. (i < length a \<and> c |\<in>| h' ! (a ! i)) \<longleftrightarrow>
                  (\<exists>r. (i, r) \<in> set m \<and> c |\<in>| h ! r))"
proof -
  obtain h' a where t: "toBucketSets h m = Inr (h', a)"
    using toBucketSets_Inr [OF assms(2), of h] by blast
  from round_trip_Inr [OF assms(1) t] t show ?thesis by blast
qed

text \<open>A Map with cards in buckets 0 and 3 and an empty Set under key 1.\<close>

theorem toBucketSets_round_trip_witness:
  "validMap [{|1::nat|}, {|2|}, {||}] [(0, 0), (3, 1), (1, 2)] \<and>
   withinArrayLength [(0, 0), (3, 1), (1, 2)] \<and>
   toBucketSets [{|1::nat|}, {|2|}, {||}] [(0, 0), (3, 1), (1, 2)]
     = Inr ([{|1|}, {|2|}, {||}, {||}, {||}, {||}, {||}], [0, 2, 5, 1]) \<and>
   fromBucketSets [{|1::nat|}, {|2|}, {||}, {||}, {||}, {||}, {||}] [0, 2, 5, 1] = [(0, 0), (3, 1)] \<and>
   membersMap [{|1::nat|}, {|2|}, {||}, {||}, {||}, {||}, {||}] [(0, 0), (3, 1)]
     = membersMap [{|1|}, {|2|}, {||}] [(0, 0), (3, 1), (1, 2)]"
proof -
  have v: "validMap [{|1::nat|}, {|2|}, {||}] [(0, 0), (3, 1), (1, 2)]"
    by (simp add: validMap_def maxSafeInteger_def)
  have w: "withinArrayLength [(0, 0), (3, 1), (1, 2)]"
    by (simp add: withinArrayLength_def maxArrayLength_def)
  have t: "toBucketSets [{|1::nat|}, {|2|}, {||}] [(0, 0), (3, 1), (1, 2)]
     = Inr ([{|1|}, {|2|}, {||}, {||}, {||}, {||}, {||}], [0, 2, 5, 1])"
    by (simp add: toBucketSets_def maxKey_def maxArrayLength_def upt_rec eval_nat_numeral)
  have f: "fromBucketSets [{|1::nat|}, {|2|}, {||}, {||}, {||}, {||}, {||}] [0, 2, 5, 1]
             = [(0, 0), (3, 1)]"
    by (simp add: fromBucketSets_def upt_rec)
  show ?thesis using v w t f toBucketSets_round_trip [OF v w] by simp
qed

text \<open>
  C6 as stated (for every mapping) fails when a key does not fit an Array: for the Map
  \<^verbatim>\<open>{5000000000 -> {1}}\<close> there is no array form, \<^verbatim>\<open>toBucketSets\<close> throws a RangeError.
\<close>

theorem toBucketSets_no_array_form:
  "validMap [{|1::nat|}] [(5000000000, 0)] \<and>
   bucketsOf [{|1::nat|}] [(5000000000, 0)] 1 = [5000000000] \<and>
   toBucketSets [{|1::nat|}] [(5000000000, 0)] = Inl RangeError"
  by (simp add: validMap_def maxSafeInteger_def bucketsOf_def toBucketSets_def maxKey_def
      maxArrayLength_def)







subsection \<open>update: destination, total and exclusivity\<close>

lemma bucketsOf_Nil_iff: "bucketsOf h m c = [] \<longleftrightarrow> (\<forall>e \<in> set m. c |\<notin>| h ! snd e)"
  by (auto simp: bucketsOf_def filter_empty_conv)

lemma bucketsOf_Cons:
  "bucketsOf h (e # m) c = (if c |\<in>| h ! snd e then fst e # bucketsOf h m c else bucketsOf h m c)"
  by (simp add: bucketsOf_def)

lemma fdisjoint_iff: "S |\<inter>| T = {||} \<longleftrightarrow> (\<forall>c. c |\<in>| S \<longrightarrow> c |\<notin>| T)"
proof
  assume e: "S |\<inter>| T = {||}"
  show "\<forall>c. c |\<in>| S \<longrightarrow> c |\<notin>| T"
  proof (intro allI impI notI)
    fix c assume "c |\<in>| S" "c |\<in>| T"
    then have "c |\<in>| S |\<inter>| T" by simp
    with e show False by simp
  qed
next
  assume a: "\<forall>c. c |\<in>| S \<longrightarrow> c |\<notin>| T"
  show "S |\<inter>| T = {||}"
  proof (rule fset_eqI)
    fix x show "x |\<in>| S |\<inter>| T \<longleftrightarrow> x |\<in>| {||}" using a by simp
  qed
qed

lemma exclusive_iff: "exclusive h m \<longleftrightarrow> (\<forall>c. length (bucketsOf h m c) \<le> 1)"
proof (induction m)
  case Nil
  show ?case by (simp add: exclusive_def bucketsOf_def)
next
  case (Cons e m)
  let ?S = "h ! snd e"
  have "list_all (\<lambda>t. ?S |\<inter>| t = {||}) (map (\<lambda>e. h ! snd e) m) \<longleftrightarrow>
        (\<forall>e' \<in> set m. \<forall>c. c |\<in>| ?S \<longrightarrow> c |\<notin>| h ! snd e')"
    by (simp only: list_all_iff set_map fdisjoint_iff) blast
  also have "\<dots> \<longleftrightarrow> (\<forall>c. c |\<in>| ?S \<longrightarrow> bucketsOf h m c = [])"
    unfolding bucketsOf_Nil_iff by blast
  finally have A: "list_all (\<lambda>t. ?S |\<inter>| t = {||}) (map (\<lambda>e. h ! snd e) m) \<longleftrightarrow>
        (\<forall>c. c |\<in>| ?S \<longrightarrow> bucketsOf h m c = [])" .
  have B: "exclusive h (e # m) \<longleftrightarrow>
        list_all (\<lambda>t. ?S |\<inter>| t = {||}) (map (\<lambda>e. h ! snd e) m) \<and> exclusive h m"
    by (simp add: exclusive_def)
  have C: "length (bucketsOf h (e # m) c) \<le> 1 \<longleftrightarrow>
        (c |\<in>| ?S \<longrightarrow> bucketsOf h m c = []) \<and> length (bucketsOf h m c) \<le> 1" for c
    by (cases "c |\<in>| ?S") (auto simp: bucketsOf_Cons)
  have "(\<forall>c. length (bucketsOf h (e # m) c) \<le> 1) \<longleftrightarrow>
        (\<forall>c. c |\<in>| ?S \<longrightarrow> bucketsOf h m c = []) \<and> (\<forall>c. length (bucketsOf h m c) \<le> 1)"
    unfolding C by blast
  with A B Cons.IH show ?case by simp
qed

lemma findCurrent_find:
  "findCurrent h m c =
     (case find (\<lambda>e. c |\<in>| h ! snd e) m of
        None \<Rightarrow> (- 1, h)
      | Some e \<Rightarrow> (int (fst e), h[snd e := h ! snd e |-| {|c|}]))"
  by (induction m) auto

lemma find_filter_hd:
  "find P xs = (case filter P xs of [] \<Rightarrow> None | x # ys \<Rightarrow> Some x)"
  by (induction xs) auto

lemma findCurrent_props:
  assumes v: "validMap h m" and u: "unshared m" and x: "length (bucketsOf h m c) \<le> 1"
    and f: "findCurrent h m c = (found, h1)"
  shows "length h1 = length h"
    and "\<forall>e \<in> set m. h1 ! snd e = h ! snd e |-| {|c|}"
    and "(if found = - 1 then 0 else found) = int (currentOf h m c)"
proof -
  let ?P = "\<lambda>e. c |\<in>| h ! snd e"
  have lenf: "length (filter ?P m) \<le> 1" using x by (simp add: bucketsOf_def)
  have inj: "inj_on snd (set m)" using u by (simp add: unshared_def distinct_map)
  have bound: "\<forall>e \<in> set m. snd e < length h" using v by (simp add: validMap_def list_all_iff)
  show "length h1 = length h"
    using f by (auto simp: findCurrent_find split: option.splits)
  show "(if found = - 1 then 0 else found) = int (currentOf h m c)"
    using f by (auto simp: findCurrent_find find_filter_hd currentOf_def bucketsOf_def
        split: option.splits list.splits)
  show "\<forall>e \<in> set m. h1 ! snd e = h ! snd e |-| {|c|}"
  proof (cases "filter ?P m")
    case Nil
    then have "\<forall>e \<in> set m. c |\<notin>| h ! snd e" by (simp add: filter_empty_conv)
    moreover have "h1 = h" using f Nil by (simp add: findCurrent_find find_filter_hd)
    ultimately show ?thesis by auto
  next
    case (Cons e0 es)
    with lenf have fl: "filter ?P m = [e0]" by simp
    have "e0 \<in> set (filter ?P m)" by (simp add: fl)
    then have e0: "e0 \<in> set m" "?P e0" by simp_all
    have only: "c |\<notin>| h ! snd e" if "e \<in> set m" "e \<noteq> e0" for e
    proof
      assume "c |\<in>| h ! snd e"
      with that have "e \<in> set (filter ?P m)" by simp
      with fl that show False by simp
    qed
    have h1: "h1 = h[snd e0 := h ! snd e0 |-| {|c|}]"
      using f Cons by (simp add: findCurrent_find find_filter_hd)
    show ?thesis
    proof
      fix e assume e: "e \<in> set m"
      show "h1 ! snd e = h ! snd e |-| {|c|}"
      proof (cases "e = e0")
        case True
        then show ?thesis using bound e by (simp add: h1)
      next
        case False
        then have "snd e \<noteq> snd e0" using inj e e0(1) by (auto dest: inj_onD)
        moreover have "c |\<notin>| h ! snd e" using only e False by simp
        ultimately show ?thesis by (simp add: h1)
      qed
    qed
  qed
qed


lemma mapSet_absent: "k \<notin> fst ` set m \<Longrightarrow> mapSet m k v = m @ [(k, v)]"
proof (induction m)
  case Nil
  show ?case by simp
next
  case (Cons e m)
  obtain k' v' where e: "e = (k', v')" by (cases e)
  from Cons.prems e have "k' \<noteq> k" and "k \<notin> fst ` set m" by auto
  then show ?case using Cons.IH e by simp
qed

lemma currentOf_safe:
  assumes "validMap h m"
  shows "currentOf h m c \<le> maxSafeInteger"
proof (cases "bucketsOf h m c")
  case Nil
  then show ?thesis by (simp add: currentOf_def)
next
  case (Cons k ks)
  then have "k \<in> set (bucketsOf h m c)" by simp
  then obtain e where "e \<in> set m" "fst e = k" by (auto simp: bucketsOf_def)
  then have "k \<le> maxSafeInteger" using assms by (auto simp: validMap_def list_all_iff)
  with Cons show ?thesis by (simp add: currentOf_def)
qed

lemma newBucket_safe:
  assumes "validMap h m"
  shows "nat (newBucketOf d (int (currentOf h m c))) \<le> maxSafeInteger"
proof -
  have "nat (newBucketOf d (int (currentOf h m c))) \<le> max 4 (currentOf h m c)"
    by (cases d) auto
  moreover have "(4::nat) \<le> maxSafeInteger" by (simp add: maxSafeInteger_def)
  ultimately show ?thesis using currentOf_safe [OF assms, of c] by simp
qed

lemma update_unfold:
  assumes "findCurrent h m c = (found, h1)"
    and "nat (newBucketOf d (if found = - 1 then 0 else found)) = nb"
  shows "update h m c d =
     (if mapHas m nb
      then (case mapGet m nb of
              None \<Rightarrow> Inl TypeError
            | Some s \<Rightarrow> Inr (h1[s := finsert c (h1 ! s)], m))
      else (case mapGet (mapSet m nb (length h1)) nb of
              None \<Rightarrow> Inl TypeError
            | Some s \<Rightarrow> Inr ((h1 @ [{||}])[s := finsert c ((h1 @ [{||}]) ! s)],
                           mapSet m nb (length h1))))"
proof (cases "mapHas m nb")
  case True
  then show ?thesis
    unfolding update_def Let_def assms(1) split_conv assms(2)
    by (simp only: not_True_eq_False if_False if_True split_conv)
next
  case False
  then show ?thesis
    unfolding update_def Let_def assms(1) split_conv assms(2)
    by (simp only: not_False_eq_True if_False if_True split_conv)
qed

lemma update_result:
  fixes d :: AnswerDifficulty
  assumes v: "validMap h m" and u: "unshared m" and x: "length (bucketsOf h m c) \<le> 1"
  defines "nb \<equiv> nat (newBucketOf d (int (currentOf h m c)))"
  shows "\<exists>h'. update h m c d = Inr (h', if nb \<in> fst ` set m then m else m @ [(nb, length h)]) \<and>
     length h' = (if nb \<in> fst ` set m then length h else Suc (length h)) \<and>
     (\<forall>e \<in> set m. h' ! snd e =
        (if fst e = nb then finsert c (h ! snd e) else h ! snd e |-| {|c|})) \<and>
     (nb \<notin> fst ` set m \<longrightarrow> h' ! length h = {|c|})"
proof -
  obtain found h1 where f: "findCurrent h m c = (found, h1)" by force
  note p = findCurrent_props [OF v u x f]
  have d: "distinct (map fst m)" using v by (simp add: validMap_def)
  have inj: "inj_on snd (set m)" using u by (simp add: unshared_def distinct_map)
  have bound: "\<forall>e \<in> set m. snd e < length h" using v by (simp add: validMap_def list_all_iff)
  have nb: "nat (newBucketOf d (if found = - 1 then 0 else found)) = nb"
    by (simp only: p(3) nb_def)
  show ?thesis
  proof (cases "nb \<in> fst ` set m")
    case True
    then obtain s where s: "(nb, s) \<in> set m" by force
    then have get: "map_of m nb = Some s" using d by simp
    let ?h' = "h1[s := finsert c (h1 ! s)]"
    have upd: "update h m c d = Inr (?h', m)"
      using True get by (simp add: update_unfold [OF f nb] mapHas_def mapGet_def)
    have cells: "?h' ! snd e = (if fst e = nb then finsert c (h ! snd e) else h ! snd e |-| {|c|})"
      if e: "e \<in> set m" for e
    proof (cases "fst e = nb")
      case True
      then have "map_of m nb = Some (snd e)" using d e by (metis map_of_eq_Some_iff prod.collapse)
      then have "snd e = s" using get by simp
      moreover have "s < length h1" using bound s p(1) by auto
      moreover have "h1 ! s = h ! s |-| {|c|}" using p(2) s by force
      moreover have "finsert c (h ! s |-| {|c|}) = finsert c (h ! s)" by auto
      ultimately show ?thesis using True by simp
    next
      case False
      then have "e \<noteq> (nb, s)" by auto
      have "snd e \<noteq> s"
      proof
        assume "snd e = s"
        then have "snd e = snd (nb, s)" by simp
        with inj e s have "e = (nb, s)" by (metis inj_onD)
        with \<open>e \<noteq> (nb, s)\<close> show False by simp
      qed
      then show ?thesis using False p(2) e by simp
    qed
    have "update h m c d = Inr (?h', if nb \<in> fst ` set m then m else m @ [(nb, length h)])"
      using upd True by simp
    moreover have "length ?h' = (if nb \<in> fst ` set m then length h else Suc (length h))"
      using True p(1) by simp
    moreover have "\<forall>e \<in> set m. ?h' ! snd e =
        (if fst e = nb then finsert c (h ! snd e) else h ! snd e |-| {|c|})"
      using cells by blast
    moreover have "nb \<notin> fst ` set m \<longrightarrow> ?h' ! length h = {|c|}"
      using True by simp
    ultimately show ?thesis by blast
  next
    case False
    let ?h' = "h1 @ [{|c|}]"
    have none: "map_of m nb = None" using False by (simp add: map_of_eq_None_iff)
    have "(h1 @ [{||}])[length h1 := finsert c ((h1 @ [{||}]) ! length h1)] = ?h'"
      by simp
    then have upd: "update h m c d = Inr (?h', m @ [(nb, length h)])"
      using False none
      by (simp add: update_unfold [OF f nb] mapHas_def mapGet_def mapSet_absent p(1) map_add_def)
    have cells: "?h' ! snd e = (if fst e = nb then finsert c (h ! snd e) else h ! snd e |-| {|c|})"
      if e: "e \<in> set m" for e
    proof -
      have "fst e \<noteq> nb" using False e by auto
      moreover have "snd e < length h1" using bound e p(1) by auto
      ultimately show ?thesis using p(2) e by (simp add: nth_append)
    qed
    have "update h m c d = Inr (?h', if nb \<in> fst ` set m then m else m @ [(nb, length h)])"
      using upd False by simp
    moreover have "length ?h' = (if nb \<in> fst ` set m then length h else Suc (length h))"
      using False p(1) by simp
    moreover have "\<forall>e \<in> set m. ?h' ! snd e =
        (if fst e = nb then finsert c (h ! snd e) else h ! snd e |-| {|c|})"
      using cells by blast
    moreover have "nb \<notin> fst ` set m \<longrightarrow> ?h' ! length h = {|c|}"
      using p(1) by (simp add: nth_append)
    ultimately show ?thesis by blast
  qed
qed


lemma cells_total:
  assumes "\<forall>e \<in> set es. h' ! snd e =
             (if fst e = nb then finsert c (h ! snd e) else h ! snd e |-| {|c|})"
  shows "totalOf h' es + length (bucketsOf h es c) =
         totalOf h es + length (filter (\<lambda>e. fst e = nb) es)"
  using assms
proof (induction es)
  case Nil
  show ?case by (simp add: totalOf_def bucketsOf_def)
next
  case (Cons e es)
  have IH: "totalOf h' es + length (bucketsOf h es c) =
            totalOf h es + length (filter (\<lambda>e. fst e = nb) es)"
    using Cons by simp
  have cell: "h' ! snd e = (if fst e = nb then finsert c (h ! snd e) else h ! snd e |-| {|c|})"
    using Cons.prems by simp
  have one: "fcard (h' ! snd e) + (if c |\<in>| h ! snd e then 1 else 0) =
             fcard (h ! snd e) + (if fst e = nb then 1 else 0)"
    using fcard_Suc_fminus1 [of c "h ! snd e"]
    by (auto simp: cell fcard_finsert_if)
  have "totalOf h' (e # es) = fcard (h' ! snd e) + totalOf h' es"
    and "totalOf h (e # es) = fcard (h ! snd e) + totalOf h es"
    by (simp_all add: totalOf_def)
  moreover have "length (bucketsOf h (e # es) c) =
      (if c |\<in>| h ! snd e then 1 else 0) + length (bucketsOf h es c)"
    by (simp add: bucketsOf_Cons)
  moreover have "length (filter (\<lambda>e. fst e = nb) (e # es)) =
      (if fst e = nb then 1 else 0) + length (filter (\<lambda>e. fst e = nb) es)"
    by simp
  ultimately show ?case using IH one by linarith
qed

lemma cells_bucketsOf_card:
  assumes "\<forall>e \<in> set es. h' ! snd e =
             (if fst e = nb then finsert c (h ! snd e) else h ! snd e |-| {|c|})"
  shows "bucketsOf h' es c = map fst (filter (\<lambda>e. fst e = nb) es)"
proof -
  have "filter (\<lambda>e. c |\<in>| h' ! snd e) es = filter (\<lambda>e. fst e = nb) es"
    using assms by (intro filter_cong) auto
  then show ?thesis by (simp add: bucketsOf_def)
qed

lemma cells_bucketsOf_other:
  assumes "\<forall>e \<in> set es. h' ! snd e =
             (if fst e = nb then finsert c (h ! snd e) else h ! snd e |-| {|c|})"
    and "c' \<noteq> c"
  shows "bucketsOf h' es c' = bucketsOf h es c'"
proof -
  have "filter (\<lambda>e. c' |\<in>| h' ! snd e) es = filter (\<lambda>e. c' |\<in>| h ! snd e) es"
    using assms by (intro filter_cong) auto
  then show ?thesis by (simp add: bucketsOf_def)
qed

lemma filter_key:
  "distinct (map fst es) \<Longrightarrow>
   map fst (filter (\<lambda>e. fst e = k) es) = (if k \<in> fst ` set es then [k] else [])"
  by (induction es) (auto simp: filter_empty_conv rev_image_eqI)

lemma update_post:
  fixes d :: AnswerDifficulty
  assumes v: "validMap h m" and u: "unshared m" and x: "length (bucketsOf h m c) \<le> 1"
  defines "nb \<equiv> nat (newBucketOf d (int (currentOf h m c)))"
  shows "\<exists>h' m'. update h m c d = Inr (h', m') \<and> validMap h' m' \<and> unshared m' \<and>
           bucketsOf h' m' c = [nb] \<and>
           (\<forall>c'. c' \<noteq> c \<longrightarrow> bucketsOf h' m' c' = bucketsOf h m c') \<and>
           totalOf h' m' + length (bucketsOf h m c) = totalOf h m + 1"
proof -
  have d: "distinct (map fst m)" using v by (simp add: validMap_def)
  have bound: "\<forall>e \<in> set m. snd e < length h" using v by (simp add: validMap_def list_all_iff)
  obtain h' where
    upd: "update h m c d = Inr (h', if nb \<in> fst ` set m then m else m @ [(nb, length h)])" and
    len: "length h' = (if nb \<in> fst ` set m then length h else Suc (length h))" and
    cells: "\<forall>e \<in> set m. h' ! snd e =
        (if fst e = nb then finsert c (h ! snd e) else h ! snd e |-| {|c|})" and
    new: "nb \<notin> fst ` set m \<longrightarrow> h' ! length h = {|c|}"
    using update_result [OF v u x, of d] unfolding nb_def by blast
  note tot = cells_total [OF cells]
  note bc = cells_bucketsOf_card [OF cells]
  note bo = cells_bucketsOf_other [OF cells]
  show ?thesis
  proof (cases "nb \<in> fst ` set m")
    case True
    have "validMap h' m" using v len True by (simp add: validMap_def)
    moreover have "bucketsOf h' m c = [nb]" using bc True d by (simp add: filter_key)
    moreover have "totalOf h' m + length (bucketsOf h m c) = totalOf h m + 1"
    proof -
      have "length (map fst (filter (\<lambda>e. fst e = nb) m)) = 1"
        using True d by (simp only: filter_key) simp
      then show ?thesis using tot by simp
    qed
    ultimately show ?thesis using True upd u bo by auto
  next
    case False
    let ?m' = "m @ [(nb, length h)]"
    have "nb \<le> maxSafeInteger" unfolding nb_def by (rule newBucket_safe [OF v])
    then have "validMap h' ?m'"
      using v len False by (auto simp: validMap_def list_all_iff)
    moreover have "unshared ?m'"
      using u bound by (auto simp: unshared_def)
    moreover have "bucketsOf h' ?m' c = [nb]"
    proof -
      have "bucketsOf h' m c = []" using bc False d by (simp add: filter_key)
      then show ?thesis using new False by (simp add: bucketsOf_def)
    qed
    moreover have "bucketsOf h' ?m' c' = bucketsOf h m c'" if "c' \<noteq> c" for c'
    proof -
      have "bucketsOf h' ?m' c' = bucketsOf h' m c'"
        using new False that by (simp add: bucketsOf_def)
      then show ?thesis using bo that by simp
    qed
    moreover have "totalOf h' ?m' + length (bucketsOf h m c) = totalOf h m + 1"
    proof -
      have "length (map fst (filter (\<lambda>e. fst e = nb) m)) = 0"
        using False d by (simp only: filter_key) simp
      then have "totalOf h' m + length (bucketsOf h m c) = totalOf h m" using tot by simp
      moreover have "totalOf h' ?m' = totalOf h' m + 1"
        using new False by (simp add: totalOf_def fcard_finsert_if)
      ultimately show ?thesis by simp
    qed
    ultimately show ?thesis using False upd by auto
  qed
qed


text \<open>
  C3, as the code has it: for a mapping whose buckets are Set objects of their own and that
  satisfies the exclusivity invariant, \<^verbatim>\<open>update\<close> returns a mapping in which the card is a
  member of exactly the destination bucket: Wrong gives 0, Hard gives
  \<open>max(0, current - 1)\<close>, Easy gives \<open>min(4, current + 1)\<close>, where \<open>current\<close> is the bucket
  of the card in the input, or 0 when no bucket has it. The destination is in 0..4 when
  \<open>current\<close> is at most 5.
\<close>

theorem update_destination:
  assumes "validMap h m" and "unshared m" and "exclusive h m"
  shows "\<exists>h' m' dest. update h m c d = Inr (h', m') \<and> bucketsOf h' m' c = [dest] \<and>
           int dest = (case d of
                         Wrong \<Rightarrow> 0
                       | Hard \<Rightarrow> max 0 (int (currentOf h m c) - 1)
                       | Easy \<Rightarrow> min 4 (int (currentOf h m c) + 1)) \<and>
           (currentOf h m c \<le> 5 \<longrightarrow> dest \<le> 4)"
proof -
  let ?nb = "nat (newBucketOf d (int (currentOf h m c)))"
  have x: "length (bucketsOf h m c) \<le> 1" using assms(3) by (simp add: exclusive_iff)
  obtain h' m' where "update h m c d = Inr (h', m')" "bucketsOf h' m' c = [?nb]"
    using update_post [OF assms(1,2) x, of d] by blast
  moreover have "int ?nb = (case d of
                         Wrong \<Rightarrow> 0
                       | Hard \<Rightarrow> max 0 (int (currentOf h m c) - 1)
                       | Easy \<Rightarrow> min 4 (int (currentOf h m c) + 1))"
    by (cases d) auto
  moreover have "currentOf h m c \<le> 5 \<longrightarrow> ?nb \<le> 4"
    by (cases d) auto
  ultimately show ?thesis by blast
qed

text \<open>The card of bucket 2 answered Hard goes to bucket 1.\<close>

theorem update_destination_witness:
  "validMap [{|1::nat|}, {|2|}] [(2, 0), (0, 1)] \<and> unshared [(2, 0), (0, 1)] \<and>
   exclusive [{|1::nat|}, {|2|}] [(2, 0), (0, 1)] \<and>
   update [{|1::nat|}, {|2|}] [(2, 0), (0, 1)] 1 Hard
     = Inr ([{||}, {|2|}, {|1|}], [(2, 0), (0, 1), (1, 2)]) \<and>
   bucketsOf [{||}, {|2|}, {|1::nat|}] [(2, 0), (0, 1), (1, 2)] 1 = [1]"
proof -
  have v: "validMap [{|1::nat|}, {|2|}] [(2, 0), (0, 1)]"
    by (simp add: validMap_def maxSafeInteger_def)
  have u: "unshared [(2, 0), (0, 1)]" by (simp add: unshared_def)
  have x: "exclusive [{|1::nat|}, {|2|}] [(2, 0), (0, 1)]" by (simp add: exclusive_def)
  have upd: "update [{|1::nat|}, {|2|}] [(2, 0), (0, 1)] 1 Hard
     = Inr ([{||}, {|2|}, {|1|}], [(2, 0), (0, 1), (1, 2)])"
    by (simp add: update_def mapHas_def mapGet_def)
  have "currentOf [{|1::nat|}, {|2|}] [(2, 0), (0, 1)] 1 = 2"
    by (simp add: currentOf_def bucketsOf_def)
  with update_destination [OF v u x, of 1 Hard] upd
  have "bucketsOf [{||}, {|2|}, {|1::nat|}] [(2, 0), (0, 1), (1, 2)] 1 = [1]"
    by auto
  with v u x upd show ?thesis by simp
qed

text \<open>
  C3 as stated (the destination always lies in 0..4) fails for a card in bucket 6 answered
  Hard: it goes to bucket 5.
\<close>

theorem update_destination_above_four:
  "validMap [{|1::nat|}] [(6, 0)] \<and> unshared [(6, 0)] \<and> exclusive [{|1::nat|}] [(6, 0)] \<and>
   update [{|1::nat|}] [(6, 0)] 1 Hard = Inr ([{||}, {|1|}], [(6, 0), (5, 1)]) \<and>
   bucketsOf [{||}, {|1::nat|}] [(6, 0), (5, 1)] 1 = [5] \<and> \<not> (5::nat) \<le> 4"
  by (simp add: validMap_def maxSafeInteger_def unshared_def exclusive_def update_def
      mapHas_def mapGet_def bucketsOf_def)

text \<open>
  C4, as the code has it: for a mapping whose buckets are Set objects of their own and that
  satisfies the exclusivity invariant, the total number of cards after \<^verbatim>\<open>update\<close> is the
  total before when the card was in a bucket, and one more when it was in none.
\<close>

theorem update_total_cards:
  assumes "validMap h m" and "unshared m" and "exclusive h m"
  shows "\<exists>h' m'. update h m c d = Inr (h', m') \<and>
           totalOf h' m' = totalOf h m + (if bucketsOf h m c = [] then 1 else 0)"
proof -
  have x: "length (bucketsOf h m c) \<le> 1" using assms(3) by (simp add: exclusive_iff)
  obtain h' m' where upd: "update h m c d = Inr (h', m')"
    and tot: "totalOf h' m' + length (bucketsOf h m c) = totalOf h m + 1"
    using update_post [OF assms(1,2) x, of d] by blast
  have "length (bucketsOf h m c) = (if bucketsOf h m c = [] then 0 else 1)"
    using x by (cases "bucketsOf h m c") auto
  with tot have "totalOf h' m' = totalOf h m + (if bucketsOf h m c = [] then 1 else 0)"
    by (auto split: if_splits)
  with upd show ?thesis by blast
qed

text \<open>Card 1 moves from bucket 2 to bucket 3 (Easy): two cards before, two after.\<close>

theorem update_total_cards_witness:
  "validMap [{|1::nat|}, {|2|}] [(2, 0), (0, 1)] \<and> unshared [(2, 0), (0, 1)] \<and>
   exclusive [{|1::nat|}, {|2|}] [(2, 0), (0, 1)] \<and>
   update [{|1::nat|}, {|2|}] [(2, 0), (0, 1)] 1 Easy
     = Inr ([{||}, {|2|}, {|1|}], [(2, 0), (0, 1), (3, 2)]) \<and>
   totalOf [{||}, {|2|}, {|1::nat|}] [(2, 0), (0, 1), (3, 2)] = 2 \<and>
   totalOf [{|1::nat|}, {|2|}] [(2, 0), (0, 1)] = 2"
proof -
  have v: "validMap [{|1::nat|}, {|2|}] [(2, 0), (0, 1)]"
    by (simp add: validMap_def maxSafeInteger_def)
  have u: "unshared [(2, 0), (0, 1)]" by (simp add: unshared_def)
  have x: "exclusive [{|1::nat|}, {|2|}] [(2, 0), (0, 1)]" by (simp add: exclusive_def)
  have upd: "update [{|1::nat|}, {|2|}] [(2, 0), (0, 1)] 1 Easy
     = Inr ([{||}, {|2|}, {|1|}], [(2, 0), (0, 1), (3, 2)])"
    by (simp add: update_def mapHas_def mapGet_def)
  have b: "bucketsOf [{|1::nat|}, {|2|}] [(2, 0), (0, 1)] 1 = [2]"
    by (simp add: bucketsOf_def)
  have t: "totalOf [{|1::nat|}, {|2|}] [(2, 0), (0, 1)] = 2"
    by (simp add: totalOf_def fcard_finsert_if)
  from update_total_cards [OF v u x, of 1 Easy] upd b t
  have "totalOf [{||}, {|2|}, {|1::nat|}] [(2, 0), (0, 1), (3, 2)] = 2"
    by auto
  with v u x upd t show ?thesis by simp
qed

text \<open>
  C4 as stated (the total is unchanged) fails for a card that is in no bucket: with card 2
  in bucket 0, \<^verbatim>\<open>update\<close> of the untracked card 1 (Easy) puts it in bucket 1, and the total
  goes from 1 to 2.
\<close>

theorem update_counts_new_card:
  "validMap [{|2::nat|}] [(0, 0)] \<and> unshared [(0, 0)] \<and> exclusive [{|2::nat|}] [(0, 0)] \<and>
   totalOf [{|2::nat|}] [(0, 0)] = 1 \<and>
   update [{|2::nat|}] [(0, 0)] 1 Easy = Inr ([{|2|}, {|1|}], [(0, 0), (1, 1)]) \<and>
   totalOf [{|2::nat|}, {|1|}] [(0, 0), (1, 1)] = 2"
  by (simp add: validMap_def maxSafeInteger_def unshared_def exclusive_def update_def
      mapHas_def mapGet_def totalOf_def fcard_finsert_if)

lemma update_invariant:
  assumes "validMap h m" and "unshared m" and "exclusive h m"
  shows "\<exists>h' m'. update h m c d = Inr (h', m') \<and> validMap h' m' \<and> unshared m' \<and> exclusive h' m'"
proof -
  have x: "\<forall>c. length (bucketsOf h m c) \<le> 1" using assms(3) by (simp add: exclusive_iff)
  obtain h' m' where upd: "update h m c d = Inr (h', m')" "validMap h' m'" "unshared m'"
    and bc: "bucketsOf h' m' c = [nat (newBucketOf d (int (currentOf h m c)))]"
    and bo: "\<forall>c'. c' \<noteq> c \<longrightarrow> bucketsOf h' m' c' = bucketsOf h m c'"
    using update_post [OF assms(1,2), of c d] x by blast
  have "length (bucketsOf h' m' c') \<le> 1" for c'
    using bc bo x by (cases "c' = c") auto
  then have "exclusive h' m'" by (simp add: exclusive_iff)
  with upd show ?thesis by blast
qed

text \<open>
  C5, as the code has it: for a mapping whose buckets are Set objects of their own and in
  which each card is in at most one bucket, every finite sequence of \<^verbatim>\<open>update\<close> calls, each
  on the mapping the previous one returned, returns a mapping in which each card is still in
  at most one bucket.
\<close>

theorem updates_exclusive:
  assumes "validMap h m" and "unshared m" and "exclusive h m"
  shows "\<exists>h' m'. updates h m trials = Inr (h', m') \<and> exclusive h' m' \<and>
           (\<forall>c. length (bucketsOf h' m' c) \<le> 1)"
proof -
  have "\<exists>h' m'. updates h m trials = Inr (h', m') \<and> validMap h' m' \<and> unshared m' \<and> exclusive h' m'"
    using assms
  proof (induction trials arbitrary: h m)
    case Nil
    then show ?case by simp
  next
    case (Cons t trials)
    obtain c d where t: "t = (c, d)" by (cases t)
    obtain h1 m1 where "update h m c d = Inr (h1, m1)" "validMap h1 m1" "unshared m1"
      "exclusive h1 m1"
      using update_invariant [OF Cons.prems, of c d] by blast
    then show ?case using Cons.IH [of h1 m1] t by simp
  qed
  then show ?thesis by (auto simp: exclusive_iff)
qed

text \<open>Four trials on two cards and a third, untracked one.\<close>

theorem updates_exclusive_witness:
  "validMap [{|1::nat|}, {|2|}] [(2, 0), (0, 1)] \<and> unshared [(2, 0), (0, 1)] \<and>
   exclusive [{|1::nat|}, {|2|}] [(2, 0), (0, 1)] \<and>
   updates [{|1::nat|}, {|2|}] [(2, 0), (0, 1)] [(1, Easy), (2, Wrong), (3, Hard), (1, Hard)]
     = Inr ([{|1|}, {|3, 2|}, {||}], [(2, 0), (0, 1), (3, 2)]) \<and>
   exclusive [{|1::nat|}, {|3, 2|}, {||}] [(2, 0), (0, 1), (3, 2)]"
proof -
  have v: "validMap [{|1::nat|}, {|2|}] [(2, 0), (0, 1)]"
    by (simp add: validMap_def maxSafeInteger_def)
  have u: "unshared [(2, 0), (0, 1)]" by (simp add: unshared_def)
  have x: "exclusive [{|1::nat|}, {|2|}] [(2, 0), (0, 1)]" by (simp add: exclusive_def)
  have upd: "updates [{|1::nat|}, {|2|}] [(2, 0), (0, 1)]
               [(1, Easy), (2, Wrong), (3, Hard), (1, Hard)]
     = Inr ([{|1|}, {|3, 2|}, {||}], [(2, 0), (0, 1), (3, 2)])"
    by (simp add: update_def mapHas_def mapGet_def)
  from updates_exclusive [OF v u x, of "[(1, Easy), (2, Wrong), (3, Hard), (1, Hard)]"] upd
  have "exclusive [{|1::nat|}, {|3, 2|}, {||}] [(2, 0), (0, 1), (3, 2)]"
    by auto
  with v u x upd show ?thesis by simp
qed

text \<open>
  C5 as stated (for every mapping with each card in at most one bucket) fails when two
  keys refer to the same Set object: with one empty Set under the keys 0 and 1, the card
  that \<^verbatim>\<open>update\<close> adds to bucket 0 is in bucket 1 too.
\<close>

theorem updates_shared_set:
  "validMap [{||} :: nat fset] [(0, 0), (1, 0)] \<and>
   exclusive [{||} :: nat fset] [(0, 0), (1, 0)] \<and>
   updates [{||} :: nat fset] [(0, 0), (1, 0)] [(1, Wrong)] = Inr ([{|1|}], [(0, 0), (1, 0)]) \<and>
   bucketsOf [{|1::nat|}] [(0, 0), (1, 0)] 1 = [0, 1] \<and>
   \<not> exclusive [{|1::nat|}] [(0, 0), (1, 0)]"
  by (simp add: validMap_def maxSafeInteger_def exclusive_def update_def mapHas_def mapGet_def
      bucketsOf_def)

end
